theory Spec2Isabelle
  imports Complex_Main "HOL-Library.Word" "HOL-Library.AList"
begin

section \<open>Exceptions\<close>

text \<open>The exceptions the modelled functions can raise. \<open>ExternalError\<close> stands for whatever
  an external collaborator (frame-object parser, pixel codec, chunk reader) raises.\<close>

datatype error = AssertionError | ValueError | KeyError | StructError | ZlibError | ExternalError

section \<open>Frame reconstruction (smush/decode.py)\<close>

subsection \<open>Data model\<close>

type_synonym byte = "8 word"

record ImagePosition =
  x1 :: int
  y1 :: int
  x2 :: int
  y2 :: int

text \<open>The header \<open>unobj\<close> returns: a bounding box and the codec selector.\<close>

record FrameObjectMeta = ImagePosition +
  codec :: int

type_synonym Matrix = "int list list"

text \<open>The element type of \<open>nutcracker.smush.types\<close>, with the attributes \<open>decode.py\<close> reads.\<close>

datatype SmushElement =
  SmushElement (comp_tag: string) (comp_children: "SmushElement list") (comp_data: "byte list")

record FrameGenCtx =
  palette :: "byte list"
  screen :: "(ImagePosition \<times> Matrix) option"
  delta_pal :: "int list"
  frame :: "SmushElement option"

text \<open>The collaborators imported by \<open>decode.py\<close> whose code is outside the sources are
  parameters of the model: the frame-object parser \<open>unobj\<close>, the codec registry
  \<open>get_decoder\<close> (\<open>None\<close> is its \<open>NotImplemented\<close> answer), \<open>zlib.decompress\<close>, and
  what \<open>image.ImagePosition()\<close> constructs.\<close>

record env =
  unobj :: "byte list \<Rightarrow> error + (FrameObjectMeta \<times> byte list)"
  get_decoder :: "int \<Rightarrow> (int \<Rightarrow> int \<Rightarrow> byte list \<Rightarrow> error + Matrix) option"
  zlib_decompress :: "byte list \<Rightarrow> error + byte list"
  default_position :: ImagePosition

subsection \<open>Palette arithmetic\<close>

definition clip :: "int \<Rightarrow> int \<Rightarrow> int \<Rightarrow> int" where
  "clip lower upper v = (if v < lower then lower else if v > upper then upper else v)"

definition clip_byte :: "int \<Rightarrow> int" where
  "clip_byte = clip 0 255"

definition delta_color :: "int \<Rightarrow> int \<Rightarrow> int" where
  "delta_color org_color delta = clip_byte ((129 * org_color + delta) div 128)"

text \<open>Python's \<open>bytes(iterable of ints)\<close>: raises \<open>ValueError\<close> unless every entry is in
  \<open>range(256)\<close>.\<close>

definition bytes_of_ints :: "int list \<Rightarrow> error + byte list" where
  "bytes_of_ints vs =
     (if list_all (\<lambda>v. 0 \<le> v \<and> v < 256) vs then Inr (map word_of_int vs) else Inl ValueError)"

text \<open>\<open>struct.unpack('<Nh', bs)\<close>: \<open>N\<close> little-endian signed 16-bit numbers; \<open>struct.error\<close>
  unless the buffer has exactly \<open>2 * N\<close> bytes.\<close>

fun le_i16s :: "byte list \<Rightarrow> int list" where
  "le_i16s (lo # hi # rest) = sint (word_of_int (uint hi * 256 + uint lo) :: 16 word) # le_i16s rest"
| "le_i16s _ = []"

definition struct_unpack_le_h :: "nat \<Rightarrow> byte list \<Rightarrow> error + int list" where
  "struct_unpack_le_h n bs = (if length bs \<noteq> 2 * n then Inl StructError else Inr (le_i16s bs))"

text \<open>\<open>struct.unpack('>I', bs)[0]\<close>: one big-endian unsigned 32-bit number; \<open>struct.error\<close>
  unless the buffer has exactly 4 bytes.\<close>

definition struct_unpack_be_I :: "byte list \<Rightarrow> error + nat" where
  "struct_unpack_be_I bs =
     (if length bs \<noteq> 4 then Inl StructError
      else Inr (foldl (\<lambda>acc b. acc * 256 + unat b) 0 bs))"

subsection \<open>Chunk handlers\<close>

definition npal :: "FrameGenCtx \<Rightarrow> byte list \<Rightarrow> error + FrameGenCtx" where
  "npal ctx data = Inr (ctx\<lparr>palette := data\<rparr>)"

definition xpal :: "FrameGenCtx \<Rightarrow> byte list \<Rightarrow> error + FrameGenCtx" where
  "xpal ctx data =
     (if length data = 0x300 * 3 + 4 then
        (if take 4 data \<noteq> [0, 0, 0, 2] then Inl AssertionError
         else case struct_unpack_le_h 0x300 (take (2 * 0x300) (drop 4 data)) of
                Inl e \<Rightarrow> Inl e
              | Inr dp \<Rightarrow> Inr (ctx\<lparr>delta_pal := dp, palette := drop (4 + 2 * 0x300) data\<rparr>))
      else if length data = 6 then
        (if data \<noteq> [0, 0, 0, 1, 0, 0] then Inl AssertionError
         else if length (delta_pal ctx) \<noteq> 0x300 then Inl AssertionError
         else if length (palette ctx) \<noteq> 0x300 then Inl AssertionError
         else case bytes_of_ints
                     (map (\<lambda>(pal, delta). delta_color (uint pal) delta)
                        (zip (palette ctx) (delta_pal ctx))) of
                Inl e \<Rightarrow> Inl e
              | Inr p \<Rightarrow> Inr (ctx\<lparr>palette := p\<rparr>))
      else Inl AssertionError)"

definition convert_fobj :: "env \<Rightarrow> byte list \<Rightarrow> error + (ImagePosition \<times> Matrix) option" where
  "convert_fobj E datam =
     (case unobj E datam of
        Inl e \<Rightarrow> Inl e
      | Inr (meta, data) \<Rightarrow>
          let width = (if codec meta \<noteq> 1 then x2 meta - x1 meta else x2 meta);
              height = (if codec meta \<noteq> 1 then y2 meta - y1 meta else y2 meta)
          in (case get_decoder E (codec meta) of
                None \<Rightarrow> Inr None
              | Some decode \<Rightarrow>
                  (case decode width height data of
                     Inl e \<Rightarrow> Inl e
                   | Inr px \<Rightarrow>
                       Inr (Some (\<lparr>x1 = x1 meta, y1 = y1 meta, x2 = x2 meta, y2 = y2 meta\<rparr>,
                                  px)))))"

definition decode_frame_object :: "env \<Rightarrow> FrameGenCtx \<Rightarrow> byte list \<Rightarrow> error + FrameGenCtx" where
  "decode_frame_object E ctx data =
     (case convert_fobj E data of
        Inl e \<Rightarrow> Inl e
      | Inr scr \<Rightarrow> Inr (ctx\<lparr>screen := scr\<rparr>))"

definition decode_compressed_frame_object ::
    "env \<Rightarrow> FrameGenCtx \<Rightarrow> byte list \<Rightarrow> error + FrameGenCtx" where
  "decode_compressed_frame_object E ctx data =
     (case struct_unpack_be_I (take 4 data) of
        Inl e \<Rightarrow> Inl e
      | Inr decompressed_size \<Rightarrow>
          (case zlib_decompress E (drop 4 data) of
             Inl e \<Rightarrow> Inl e
           | Inr raw \<Rightarrow>
               if length raw \<noteq> decompressed_size then Inl AssertionError
               else decode_frame_object E ctx raw))"

definition unsupported_frame_comp :: "FrameGenCtx \<Rightarrow> byte list \<Rightarrow> error + FrameGenCtx" where
  "unsupported_frame_comp ctx data = Inr ctx"

definition DECODE_FRAME_IMAGE ::
    "env \<Rightarrow> string \<Rightarrow> (FrameGenCtx \<Rightarrow> byte list \<Rightarrow> error + FrameGenCtx) option" where
  "DECODE_FRAME_IMAGE E t =
     (if t = ''NPAL'' then Some npal
      else if t = ''XPAL'' then Some xpal
      else if t = ''ZFOB'' then Some (decode_compressed_frame_object E)
      else if t = ''FOBJ'' then Some (decode_frame_object E)
      else None)"

subsection \<open>The fold over frames\<close>

text \<open>One step of the inner loop of \<open>generate_frames\<close>:
  \<open>DECODE_FRAME_IMAGE.get(comp.tag, unsupported_frame_comp)(ctx, comp.data)\<close>.\<close>

definition decode_comp :: "env \<Rightarrow> FrameGenCtx \<Rightarrow> SmushElement \<Rightarrow> error + FrameGenCtx" where
  "decode_comp E ctx cmp =
     (case DECODE_FRAME_IMAGE E (comp_tag cmp) of
        None \<Rightarrow> unsupported_frame_comp ctx (comp_data cmp)
      | Some handler \<Rightarrow> handler ctx (comp_data cmp))"

text \<open>The inner loop \<open>for comp in frame.children\<close>; the first exception ends it.\<close>

fun decode_comps :: "env \<Rightarrow> FrameGenCtx \<Rightarrow> SmushElement list \<Rightarrow> error + FrameGenCtx" where
  "decode_comps E ctx [] = Inr ctx"
| "decode_comps E ctx (cmp # comps) =
     (case decode_comp E ctx cmp of
        Inl e \<Rightarrow> Inl e
      | Inr ctx' \<Rightarrow> decode_comps E ctx' comps)"

text \<open>The outer loop of the generator: the list of contexts it yields, and the exception that
  ends the iteration early, if any. The \<open>parser\<close> argument of \<open>generate_frames\<close> is never
  read (the loop looks handlers up in the module's \<open>DECODE_FRAME_IMAGE\<close>), and of the header
  only the palette is.\<close>

fun frames_loop ::
    "env \<Rightarrow> FrameGenCtx \<Rightarrow> SmushElement list \<Rightarrow> FrameGenCtx list \<times> error option" where
  "frames_loop E ctx [] = ([], None)"
| "frames_loop E ctx (fr # frames) =
     (case decode_comps E (ctx\<lparr>frame := Some fr\<rparr>) (comp_children fr) of
        Inl e \<Rightarrow> ([], Some e)
      | Inr ctx' \<Rightarrow>
          if screen ctx' = None then ([], Some AssertionError)
          else (case frames_loop E ctx' frames of (ys, r) \<Rightarrow> (ctx' # ys, r)))"

definition initial_ctx :: "env \<Rightarrow> byte list \<Rightarrow> FrameGenCtx" where
  "initial_ctx E header_palette =
     \<lparr>palette = header_palette, screen = Some (default_position E, []), delta_pal = [],
      frame = None\<rparr>"

definition generate_frames ::
    "env \<Rightarrow> byte list \<Rightarrow> SmushElement list \<Rightarrow> FrameGenCtx list \<times> error option" where
  "generate_frames E header_palette frames = frames_loop E (initial_ctx E header_palette) frames"

section \<open>Schema inference and tree building (core/index.py)\<close>

subsection \<open>Streams and chunks\<close>

text \<open>Modelled from the spec: \<open>StreamView\<close> (\<open>core/stream.py\<close>) and the chunk reader
  \<open>read_chunks\<close> (\<open>core/resource.py\<close>) are not among the sources. A view is the spec's
  ByteView: a window of bytes with a cursor of its own; reading advances the cursor, seeking
  sets it. The reader splits a view into ordered records \<open>(offset, Chunk(tag, payload view))\<close>
  and may raise a structural-parse error; it is a generator, so the records before the error
  are handed out first. What the reader yields on a view, started at the position
  \<open>generate_schema\<close> restores before each attempt, is carried by the view itself:
  \<open>reader_yields\<close> are the records and \<open>reader_fails\<close> says whether the error follows them.\<close>

datatype StreamView =
  StreamView (content: "byte list") (cursor: nat)
    (reader_yields: "(nat \<times> Chunk) list") (reader_fails: bool)
and Chunk = Chunk (chunk_tag: string) (chunk_data: StreamView)

text \<open>Modelled from the spec: \<open>seek(pos)\<close> sets the cursor (relative to the start of the
  view); \<open>read(n)\<close> returns the bytes from the cursor on, all of them without an argument or
  with a negative one and at most \<open>n\<close> otherwise, and advances the cursor past them.\<close>

definition seek :: "nat \<Rightarrow> StreamView \<Rightarrow> StreamView" where
  "seek pos v = StreamView (content v) pos (reader_yields v) (reader_fails v)"

definition read_bytes :: "int option \<Rightarrow> StreamView \<Rightarrow> byte list \<times> StreamView" where
  "read_bytes n v =
     (let avail = drop (cursor v) (content v);
          out = (case n of
                   None \<Rightarrow> avail
                 | Some k \<Rightarrow> if k < 0 then avail else take (nat k) avail)
      in (out, seek (cursor v + length out) v))"

subsection \<open>Elements\<close>

text \<open>The \<open>attribs\<close> dictionary \<open>create_element\<close> builds, with its three keys.\<close>

record Attribs =
  attr_offset :: nat
  attr_size :: nat
  attr_gid :: "string option"

datatype Element =
  Element (tag: string) (attribs: Attribs) (children: "Element list") (stream: StreamView)

text \<open>\<open>Element.read\<close>: the view is shared with the element, so the call returns the bytes
  together with the element holding the view in its new state.\<close>

definition Element_read :: "int option \<Rightarrow> Element \<Rightarrow> byte list \<times> Element" where
  "Element_read n el =
     (let (out, v) = read_bytes n (seek 0 (stream el))
      in (out, Element (tag el) (attribs el) (children el) v))"

subsection \<open>Schemas\<close>

text \<open>A schema is a Python dictionary, kept in insertion order. Its keys are tags, or
  \<open>None\<close> when the handler of \<open>generate_schema\<close> stores under \<open>e.ptag = None\<close>. Its values
  are frozensets whose members are tags or the integer \<open>10\<close> of \<open>DUMMY\<close>.\<close>

type_synonym key = "string option"

datatype member = Ten | Tag string

type_synonym schema = "(key \<times> member set) list"

definition DATA :: "member set" where
  "DATA = {}"

definition DUMMY :: "member set" where
  "DUMMY = {Ten}"

text \<open>Truth values of Python: a parent tag is true unless it is \<open>None\<close> or the empty string;
  \<open>schema.get(tag)\<close> is true when the tag is a key with a non-empty set.\<close>

definition truthy_ptag :: "key \<Rightarrow> bool" where
  "truthy_ptag ptag = (case ptag of None \<Rightarrow> False | Some p \<Rightarrow> p \<noteq> [])"

definition truthy_entry :: "schema \<Rightarrow> key \<Rightarrow> bool" where
  "truthy_entry sch k = (case map_of sch k of None \<Rightarrow> False | Some tags \<Rightarrow> tags \<noteq> {})"

subsection \<open>Exceptions of the tree walk\<close>

text \<open>An exception in flight: what was raised, and its \<open>ptag\<close> attribute when it has one
  (\<open>None\<close>: no such attribute; \<open>Some None\<close>: the attribute holds Python's \<open>None\<close>).
  \<open>MissingSchemaEntry\<close> sets the attribute itself.\<close>

datatype exn =
  MissingSchemaKey string
| MissingSchemaEntry string string
| OtherException error

type_synonym raised = "exn \<times> key option"

text \<open>\<open>exception_ptag_context\<close>: an exception leaving the block gets \<open>ptag\<close> as attribute
  unless it already has one.\<close>

definition exception_ptag_context :: "key \<Rightarrow> raised + 'a \<Rightarrow> raised + 'a" where
  "exception_ptag_context ptag r =
     (case r of
        Inl (e, None) \<Rightarrow> Inl (e, Some ptag)
      | Inl (e, Some p) \<Rightarrow> Inl (e, Some p)
      | Inr x \<Rightarrow> Inr x)"

text \<open>\<open>schema_check\<close>: the checks run on entry, but the generator yields inside \<open>finally\<close>,
  so an exception of the checks stays pending while the body of the \<open>with\<close> runs and is
  raised when the block is left; an exception of the body replaces it. The result here is
  the pending exception. Without \<open>strict\<close> the two schema exceptions are logged and dropped.\<close>

definition schema_check :: "schema \<Rightarrow> key \<Rightarrow> string \<Rightarrow> bool \<Rightarrow> raised option" where
  "schema_check sch ptag t strict =
     (if truthy_ptag ptag \<and> map_of sch ptag = None then Some (OtherException KeyError, None)
      else if truthy_ptag ptag \<and> Tag t \<notin> the (map_of sch ptag) then
        (if strict then Some (MissingSchemaEntry (the ptag) t, Some ptag) else None)
      else if map_of sch (Some t) = None then
        (if strict then Some (MissingSchemaKey t, None) else None)
      else None)"

subsection \<open>The tree builder\<close>

text \<open>\<open>map_chunks\<close> and \<open>create_element\<close>, for the default \<open>idgen\<close> (no identifier is
  generated, \<open>gid\<close> is \<open>None\<close>). \<open>walk_records\<close> is the \<open>for\<close> loop of \<open>map_chunks\<close> over the
  records of the reader: for each record the element is built first (the body of the
  \<open>with\<close>), then the pending exception of \<open>schema_check\<close> is raised.\<close>

fun map_chunks :: "schema \<Rightarrow> key \<Rightarrow> bool \<Rightarrow> StreamView \<Rightarrow> raised + Element list"
and walk_records :: "schema \<Rightarrow> key \<Rightarrow> bool \<Rightarrow> (nat \<times> Chunk) list \<Rightarrow> raised + Element list"
and create_element :: "schema \<Rightarrow> string \<Rightarrow> nat \<Rightarrow> StreamView \<Rightarrow> bool \<Rightarrow> raised + Element"
where
  "map_chunks sch ptag strict (StreamView bs pos recs bad) =
     exception_ptag_context ptag
       (case walk_records sch ptag strict recs of
          Inl e \<Rightarrow> Inl e
        | Inr els \<Rightarrow> if bad then Inl (OtherException ExternalError, None) else Inr els)"
| "walk_records sch ptag strict [] = Inr []"
| "walk_records sch ptag strict ((hoff, Chunk t chunk) # rest) =
     (case create_element sch t hoff chunk strict of
        Inl e \<Rightarrow> Inl e
      | Inr el \<Rightarrow>
          (case schema_check sch ptag t strict of
             Some e \<Rightarrow> Inl e
           | None \<Rightarrow>
               (case walk_records sch ptag strict rest of
                  Inl e \<Rightarrow> Inl e
                | Inr els \<Rightarrow> Inr (el # els))))"
| "create_element sch t offset data strict =
     (if truthy_entry sch (Some t) then
        (case map_chunks sch (Some t) strict data of
           Inl e \<Rightarrow> Inl e
         | Inr cs \<Rightarrow>
             Inr (Element t \<lparr>attr_offset = offset, attr_size = length (content data),
                             attr_gid = None\<rparr> cs data))
      else
        Inr (Element t \<lparr>attr_offset = offset, attr_size = length (content data),
                        attr_gid = None\<rparr> [] data))"

subsection \<open>The inference loop\<close>

text \<open>What one pass of the \<open>while True\<close> loop of \<open>generate_schema\<close> does with the result of
  the strict walk: return the schema without the entries equal to \<open>DUMMY\<close>, raise, or go
  round again with a changed schema.\<close>

datatype outcome = Return schema | Raise error | Retry schema

definition refine :: "schema \<Rightarrow> raised + Element list \<Rightarrow> outcome" where
  "refine sch r =
     (case r of
        Inr els \<Rightarrow> Return (filter (\<lambda>(ptag, tags). tags \<noteq> DUMMY) sch)
      | Inl (MissingSchemaKey t, a) \<Rightarrow> Retry (AList.update (Some t) DUMMY sch)
      | Inl (MissingSchemaEntry p t, a) \<Rightarrow>
          (case map_of sch (Some p) of
             None \<Rightarrow> Raise KeyError
           | Some tags \<Rightarrow> Retry (AList.update (Some p) ((tags - DUMMY) \<union> {Tag t}) sch))
      | Inl (OtherException e, a) \<Rightarrow>
          (case a of
             None \<Rightarrow> Raise AssertionError
           | Some ptag \<Rightarrow>
               if map_of sch ptag = Some DATA then Raise ValueError
               else Retry (AList.update ptag DATA sch)))"

definition attempt :: "StreamView \<Rightarrow> schema \<Rightarrow> outcome" where
  "attempt data sch = refine sch (map_chunks sch None True data)"

text \<open>The loop has no bound on its passes: a run that never returns is \<open>None\<close>.\<close>

partial_function (option) generate_schema_loop ::
    "StreamView \<Rightarrow> schema \<Rightarrow> (error + schema) option" where
  "generate_schema_loop data sch =
     (case attempt data sch of
        Return s \<Rightarrow> Some (Inr s)
      | Raise e \<Rightarrow> Some (Inl e)
      | Retry sch' \<Rightarrow> generate_schema_loop data sch')"

definition generate_schema :: "StreamView \<Rightarrow> (error + schema) option" where
  "generate_schema data = generate_schema_loop data []"

text \<open>The schema recorded after \<open>n\<close> retries that started from \<open>sch\<close>, when the loop goes
  round that many times.\<close>

fun schema_after :: "StreamView \<Rightarrow> nat \<Rightarrow> schema \<Rightarrow> schema option" where
  "schema_after data 0 sch = Some sch"
| "schema_after data (Suc n) sch =
     (case attempt data sch of
        Retry sch' \<Rightarrow> schema_after data n sch'
      | _ \<Rightarrow> None)"

text \<open>What the handlers of \<open>generate_schema\<close> rely on when a schema exception reaches them:
  a missing key is not yet a key, and the parent of a missing entry is a key with a non-empty
  set.\<close>

definition blamed_in :: "schema \<Rightarrow> exn \<Rightarrow> bool" where
  "blamed_in sch e =
     (case e of
        MissingSchemaKey t \<Rightarrow> map_of sch (Some t) = None
      | MissingSchemaEntry p t \<Rightarrow> truthy_entry sch (Some p)
      | OtherException x \<Rightarrow> True)"

subsection \<open>Concrete inputs for the frame reconstruction\<close>

definition ctx_small :: FrameGenCtx where
  "ctx_small = \<lparr>palette = replicate 768 200, screen = None, delta_pal = replicate 768 (- 300),
                frame = None\<rparr>"

text \<open>A collaborator set whose frame-object parser reports codec 99 for every payload and
  whose registry implements no codec but 1 (which returns one row of zeros).\<close>

definition env_99 :: env where
  "env_99 =
     \<lparr>unobj = (\<lambda>bs. Inr (\<lparr>x1 = 0, y1 = 0, x2 = 4, y2 = 4, codec = 99\<rparr>, bs)),
      get_decoder = (\<lambda>c. if c = 1 then Some (\<lambda>w h bs. Inr [[0, 0, 0, 0]]) else None),
      zlib_decompress = (\<lambda>bs. Inr bs),
      default_position = \<lparr>x1 = 0, y1 = 0, x2 = 0, y2 = 0\<rparr>\<rparr>"

definition ctx_start :: FrameGenCtx where
  "ctx_start = initial_ctx env_99 [1, 2, 3]"

definition frame_empty :: SmushElement where
  "frame_empty = SmushElement ''FRME'' [] []"

definition frame_npal :: SmushElement where
  "frame_npal = SmushElement ''FRME'' [SmushElement ''NPAL'' [] [9, 9, 9]] []"

definition frame_fobj :: SmushElement where
  "frame_fobj = SmushElement ''FRME'' [SmushElement ''FOBJ'' [] [7]] []"

text \<open>The same collaborators with a parser that reports codec 1.\<close>

definition env_1 :: env where
  "env_1 = env_99\<lparr>unobj := (\<lambda>bs. Inr (\<lparr>x1 = 0, y1 = 0, x2 = 4, y2 = 4, codec = 1\<rparr>, bs))\<rparr>"

definition ctx_first :: FrameGenCtx where
  "ctx_first =
     \<lparr>palette = [1, 2, 3],
      screen = Some (\<lparr>x1 = 0, y1 = 0, x2 = 4, y2 = 4\<rparr>, [[0, 0, 0, 0]]),
      delta_pal = [], frame = Some frame_fobj\<rparr>"

subsection \<open>Concrete streams\<close>

definition empty_view :: StreamView where
  "empty_view = StreamView [] 0 [] False"

text \<open>One chunk \<open>AAAA\<close> with an empty payload.\<close>

definition stream_leaf :: StreamView where
  "stream_leaf = StreamView [] 0 [(0, Chunk ''AAAA'' empty_view)] False"



definition element_abc :: Element where
  "element_abc =
     Element ''DATA'' \<lparr>attr_offset = 0, attr_size = 3, attr_gid = None\<rparr> []
       (StreamView [1, 2, 3] 2 [] False)"

section \<open>Properties of the frame reconstruction\<close>

lemma clip_byte_range: "0 \<le> clip_byte v \<and> clip_byte v \<le> 255"
  by (simp add: clip_byte_def clip_def)

lemma delta_color_range: "0 \<le> delta_color c d \<and> delta_color c d < 256"
  using clip_byte_range [of "(129 * c + d) div 128"] by (simp add: delta_color_def)

text \<open>C5: for all integers, \<open>delta_color\<close> is the clipped floor of the exact quotient
  \<open>(129 * org_color + delta) / 128\<close>; the result is \<open>0\<close> when that floor is negative and
  \<open>255\<close> when it exceeds \<open>255\<close>.\<close>

theorem delta_color_law:
  "delta_color org_color delta = clip 0 255 \<lfloor>real_of_int (129 * org_color + delta) / 128\<rfloor>
   \<and> delta_color org_color delta
       = max 0 (min 255 \<lfloor>real_of_int (129 * org_color + delta) / 128\<rfloor>)"
proof -
  have fl: "\<lfloor>real_of_int (129 * org_color + delta) / 128\<rfloor> = (129 * org_color + delta) div 128"
    using floor_divide_of_int_eq [of "129 * org_color + delta" 128, where ?'a = real] by simp
  show ?thesis
    unfolding fl by (simp add: delta_color_def clip_byte_def clip_def)
qed

lemma bytes_of_ints_delta:
  "bytes_of_ints (map (\<lambda>(pal, delta). delta_color (uint pal) delta) ps)
     = Inr (map (\<lambda>(pal, delta). word_of_int (delta_color (uint pal) delta)) ps)"
  using delta_color_range
  by (auto simp: bytes_of_ints_def list_all_iff)

lemma uint_delta_color_byte:
  "uint (word_of_int (delta_color c d) :: byte) = delta_color c d"
  using delta_color_range [of c d] by (simp add: uint_word_of_int take_bit_int_eq_self)

text \<open>C6: on a 6-byte payload \<open>xpal\<close> raises unless the payload is the marker
  \<open>0,0,0,1,0,0\<close>, raises unless \<open>delta_pal\<close> and \<open>palette\<close> both hold 768 entries, and
  otherwise returns the context with only the palette replaced, entry \<open>i\<close> of the new palette
  being \<open>delta_color (palette[i], delta_pal[i])\<close> for every \<open>i\<close> in \<open>0..767\<close>.\<close>

theorem xpal_small_form:
  assumes "length data = 6"
  shows "(data \<noteq> [0, 0, 0, 1, 0, 0] \<longrightarrow> xpal ctx data = Inl AssertionError)
       \<and> (length (delta_pal ctx) \<noteq> 768 \<or> length (palette ctx) \<noteq> 768
            \<longrightarrow> xpal ctx data = Inl AssertionError)
       \<and> (data = [0, 0, 0, 1, 0, 0] \<and> length (delta_pal ctx) = 768 \<and> length (palette ctx) = 768
            \<longrightarrow> (\<exists>new. xpal ctx data = Inr (ctx\<lparr>palette := new\<rparr>) \<and> length new = 768
                   \<and> (\<forall>i<768. uint (new ! i)
                         = delta_color (uint (palette ctx ! i)) (delta_pal ctx ! i))))"
proof (intro conjI impI)
  assume "data \<noteq> [0, 0, 0, 1, 0, 0]"
  with assms show "xpal ctx data = Inl AssertionError" by (simp add: xpal_def)
next
  assume "length (delta_pal ctx) \<noteq> 768 \<or> length (palette ctx) \<noteq> 768"
  with assms show "xpal ctx data = Inl AssertionError" by (auto simp: xpal_def)
next
  assume ok: "data = [0, 0, 0, 1, 0, 0] \<and> length (delta_pal ctx) = 768 \<and> length (palette ctx) = 768"
  let ?new = "map (\<lambda>(pal, delta). word_of_int (delta_color (uint pal) delta) :: byte)
                (zip (palette ctx) (delta_pal ctx))"
  have "xpal ctx data = Inr (ctx\<lparr>palette := ?new\<rparr>)"
    using ok by (simp add: xpal_def bytes_of_ints_delta)
  moreover have "length ?new = 768" using ok by simp
  moreover have "\<forall>i<768. uint (?new ! i) = delta_color (uint (palette ctx ! i)) (delta_pal ctx ! i)"
    using ok by (simp add: uint_delta_color_byte)
  ultimately show "\<exists>new. xpal ctx data = Inr (ctx\<lparr>palette := new\<rparr>) \<and> length new = 768
                   \<and> (\<forall>i<768. uint (new ! i)
                         = delta_color (uint (palette ctx ! i)) (delta_pal ctx ! i))"
    by blast
qed

theorem xpal_small_form_witness:
  "(\<exists>new. xpal ctx_small [0, 0, 0, 1, 0, 0] = Inr (ctx_small\<lparr>palette := new\<rparr>)
          \<and> length new = 768 \<and> uint (new ! 0) = 199 \<and> uint (new ! 767) = 199)
   \<and> xpal ctx_small [0, 0, 0, 1, 0, 7] = Inl AssertionError
   \<and> xpal (ctx_small\<lparr>delta_pal := []\<rparr>) [0, 0, 0, 1, 0, 0] = Inl AssertionError"
proof -
  have a: "xpal ctx_small [0, 0, 0, 1, 0, 7] = Inl AssertionError"
    using xpal_small_form [of "[0, 0, 0, 1, 0, 7]" ctx_small] by simp
  have b: "xpal (ctx_small\<lparr>delta_pal := []\<rparr>) [0, 0, 0, 1, 0, 0] = Inl AssertionError"
    using xpal_small_form [of "[0, 0, 0, 1, 0, 0]" "ctx_small\<lparr>delta_pal := []\<rparr>"] by simp
  have dc: "delta_color 200 (- 300) = 199"
    by (simp add: delta_color_def clip_byte_def clip_def)
  obtain new where n: "xpal ctx_small [0, 0, 0, 1, 0, 0] = Inr (ctx_small\<lparr>palette := new\<rparr>)"
      "length new = 768"
      "\<forall>i<768. uint (new ! i) = delta_color (uint (palette ctx_small ! i)) (delta_pal ctx_small ! i)"
    using xpal_small_form [of "[0, 0, 0, 1, 0, 0]" ctx_small]
    by (auto simp: ctx_small_def)
  have "uint (new ! 0) = 199" "uint (new ! 767) = 199"
    using n(3) dc by (simp_all add: ctx_small_def)
  with n(1,2) a b show ?thesis by blast
qed

lemma be_I_value:
  "struct_unpack_be_I [b0, b1, b2, b3]
     = Inr (unat b0 * 2 ^ 24 + unat b1 * 2 ^ 16 + unat b2 * 2 ^ 8 + unat b3)"
  by (simp add: struct_unpack_be_I_def)

lemma take4_explicit:
  "4 \<le> length data \<Longrightarrow> take 4 data = [data ! 0, data ! 1, data ! 2, data ! 3]"
  by (cases data; simp; rename_tac a as; case_tac as; simp;
      rename_tac b bs; case_tac bs; simp; rename_tac c cs; case_tac cs; simp)

text \<open>C7: on a compressed payload of at least four bytes whose remainder inflates, the first
  four bytes are read as a big-endian unsigned 32-bit declared size; an inflated length other
  than the declared size raises; otherwise the result is that of the uncompressed path
  \<open>decode_frame_object\<close> on the inflated bytes and the same context.\<close>

theorem compressed_frame_object_refines:
  assumes "4 \<le> length data" and "zlib_decompress E (drop 4 data) = Inr raw"
  shows "struct_unpack_be_I (take 4 data)
           = Inr (unat (data ! 0) * 2 ^ 24 + unat (data ! 1) * 2 ^ 16
                  + unat (data ! 2) * 2 ^ 8 + unat (data ! 3))
       \<and> (length raw \<noteq> unat (data ! 0) * 2 ^ 24 + unat (data ! 1) * 2 ^ 16
                          + unat (data ! 2) * 2 ^ 8 + unat (data ! 3)
            \<longrightarrow> decode_compressed_frame_object E ctx data = Inl AssertionError)
       \<and> (length raw = unat (data ! 0) * 2 ^ 24 + unat (data ! 1) * 2 ^ 16
                          + unat (data ! 2) * 2 ^ 8 + unat (data ! 3)
            \<longrightarrow> decode_compressed_frame_object E ctx data = decode_frame_object E ctx raw)"
proof -
  have sz: "struct_unpack_be_I (take 4 data)
           = Inr (unat (data ! 0) * 2 ^ 24 + unat (data ! 1) * 2 ^ 16
                  + unat (data ! 2) * 2 ^ 8 + unat (data ! 3))"
    using assms(1) by (simp only: take4_explicit be_I_value)
  show ?thesis
    unfolding decode_compressed_frame_object_def sz using assms(2) by simp
qed

lemma compressed_short_payload:
  "length data < 4 \<Longrightarrow> decode_compressed_frame_object E ctx data = Inl StructError"
  by (simp add: decode_compressed_frame_object_def struct_unpack_be_I_def)

theorem compressed_frame_object_refines_witness:
  "decode_compressed_frame_object env_99 ctx_start [0, 0, 0, 2, 5, 6]
     = decode_frame_object env_99 ctx_start [5, 6]
   \<and> decode_compressed_frame_object env_99 ctx_start [0, 0, 1, 2, 5, 6] = Inl AssertionError"
proof -
  have z: "zlib_decompress env_99 (drop 4 [0, 0, 0, 2, 5, 6]) = Inr [5, 6]"
          "zlib_decompress env_99 (drop 4 [0, 0, 1, 2, 5, 6]) = Inr [5, 6]"
    by (simp_all add: env_99_def)
  show ?thesis
    using compressed_frame_object_refines [of "[0, 0, 0, 2, 5, 6]" env_99 "[5, 6]" ctx_start, OF _ z(1)]
          compressed_frame_object_refines [of "[0, 0, 1, 2, 5, 6]" env_99 "[5, 6]" ctx_start, OF _ z(2)]
    by simp
qed

text \<open>C1, as stated, fails: with a codec that has no decoder the chunk is processed without
  an exception, but the screen of the resulting context is \<open>None\<close>, not the screen the
  context had before.\<close>

theorem unimplemented_codec_counterexample:
  "decode_frame_object env_99 ctx_start [7] = Inr (ctx_start\<lparr>screen := None\<rparr>)
   \<and> screen ctx_start = Some (\<lparr>x1 = 0, y1 = 0, x2 = 0, y2 = 0\<rparr>, [])
   \<and> screen (ctx_start\<lparr>screen := None\<rparr>) \<noteq> screen ctx_start
   \<and> get_decoder env_99 99 = None"
  by (simp add: decode_frame_object_def convert_fobj_def env_99_def ctx_start_def initial_ctx_def)

text \<open>C1, amended: for a \<open>FOBJ\<close> chunk whose parsed header selects a codec with no
  implemented decoder, processing raises nothing and returns the context with its screen set to
  \<open>None\<close> and every other field unchanged; the fold continues with the remaining chunks
  from that context.\<close>

theorem unimplemented_codec_clears_screen:
  assumes "comp_tag c = ''FOBJ''"
      and "unobj E (comp_data c) = Inr (meta, px)"
      and "get_decoder E (codec meta) = None"
  shows "decode_frame_object E ctx (comp_data c) = Inr (ctx\<lparr>screen := None\<rparr>)
       \<and> decode_comps E ctx (c # rest) = decode_comps E (ctx\<lparr>screen := None\<rparr>) rest"
proof -
  have "convert_fobj E (comp_data c) = Inr None"
    using assms(2,3) by (simp add: convert_fobj_def Let_def)
  then have d: "decode_frame_object E ctx (comp_data c) = Inr (ctx\<lparr>screen := None\<rparr>)"
    by (simp add: decode_frame_object_def)
  have "decode_comp E ctx c = decode_frame_object E ctx (comp_data c)"
    using assms(1) by (simp add: decode_comp_def DECODE_FRAME_IMAGE_def)
  with d show ?thesis by simp
qed

theorem unimplemented_codec_clears_screen_witness:
  "decode_frame_object env_99 ctx_start [7] = Inr (ctx_start\<lparr>screen := None\<rparr>)
   \<and> decode_comps env_99 ctx_start [SmushElement ''FOBJ'' [] [7], SmushElement ''NPAL'' [] [9]]
       = Inr (ctx_start\<lparr>screen := None, palette := [9]\<rparr>)"
proof -
  have u: "unobj env_99 (comp_data (SmushElement ''FOBJ'' [] [7]))
             = Inr (\<lparr>x1 = 0, y1 = 0, x2 = 4, y2 = 4, codec = 99\<rparr>, [7])"
    by (simp add: env_99_def)
  have g: "get_decoder env_99 (codec \<lparr>x1 = 0, y1 = 0, x2 = 4, y2 = 4, codec = 99\<rparr>) = None"
    by (simp add: env_99_def)
  have n: "decode_comps env_99 (ctx_start\<lparr>screen := None\<rparr>) [SmushElement ''NPAL'' [] [9]]
             = Inr (ctx_start\<lparr>screen := None, palette := [9]\<rparr>)"
    by (simp add: decode_comp_def DECODE_FRAME_IMAGE_def npal_def)
  show ?thesis
    using unimplemented_codec_clears_screen
            [of "SmushElement ''FOBJ'' [] [7]" env_99 _ "[7]" ctx_start
                "[SmushElement ''NPAL'' [] [9]]", OF _ u g] n
    by simp
qed

lemma decode_comp_keeps_screen:
  assumes "comp_tag c \<noteq> ''FOBJ''" and "comp_tag c \<noteq> ''ZFOB''"
      and "decode_comp E ctx c = Inr ctx'"
  shows "screen ctx' = screen ctx"
  using assms
  by (auto simp: decode_comp_def DECODE_FRAME_IMAGE_def npal_def xpal_def
      unsupported_frame_comp_def split: if_splits sum.splits)

lemma decode_comps_keep_screen:
  assumes "\<forall>c\<in>set comps. comp_tag c \<noteq> ''FOBJ'' \<and> comp_tag c \<noteq> ''ZFOB''"
      and "decode_comps E ctx comps = Inr ctx'"
  shows "screen ctx' = screen ctx"
  using assms
proof (induction comps arbitrary: ctx)
  case Nil
  then show ?case by simp
next
  case (Cons c comps)
  from Cons.prems(2) obtain mid where m: "decode_comp E ctx c = Inr mid"
      and r: "decode_comps E mid comps = Inr ctx'"
    by (auto split: sum.splits)
  have "screen mid = screen ctx"
    using decode_comp_keeps_screen [OF _ _ m] Cons.prems(1) by simp
  moreover have "screen ctx' = screen mid"
    using Cons.IH [OF _ r] Cons.prems(1) by simp
  ultimately show ?case by simp
qed

lemma convert_fobj_None:
  assumes "convert_fobj E d = Inr None"
  shows "\<exists>meta px. unobj E d = Inr (meta, px) \<and> get_decoder E (codec meta) = None"
  using assms
  by (auto simp: convert_fobj_def Let_def split: sum.splits option.splits prod.splits)

lemma decode_comp_clears_screen:
  assumes "decode_comp E ctx c = Inr ctx'" and "screen ctx \<noteq> None" and "screen ctx' = None"
  shows "\<exists>d meta px.
           ((comp_tag c = ''FOBJ'' \<and> d = comp_data c)
            \<or> (comp_tag c = ''ZFOB'' \<and> zlib_decompress E (drop 4 (comp_data c)) = Inr d))
           \<and> unobj E d = Inr (meta, px) \<and> get_decoder E (codec meta) = None"
proof -
  consider (fobj) "comp_tag c = ''FOBJ''" | (zfob) "comp_tag c = ''ZFOB''"
    | (other) "comp_tag c \<noteq> ''FOBJ''" "comp_tag c \<noteq> ''ZFOB''"
    by blast
  then show ?thesis
  proof cases
    case fobj
    with assms(1) have "decode_frame_object E ctx (comp_data c) = Inr ctx'"
      by (simp add: decode_comp_def DECODE_FRAME_IMAGE_def)
    with assms(3) have "convert_fobj E (comp_data c) = Inr None"
      by (auto simp: decode_frame_object_def split: sum.splits)
    from convert_fobj_None [OF this] fobj show ?thesis by blast
  next
    case zfob
    with assms(1) have z: "decode_compressed_frame_object E ctx (comp_data c) = Inr ctx'"
      by (simp add: decode_comp_def DECODE_FRAME_IMAGE_def)
    then obtain d where d: "zlib_decompress E (drop 4 (comp_data c)) = Inr d"
        and f: "decode_frame_object E ctx d = Inr ctx'"
      by (auto simp: decode_compressed_frame_object_def split: sum.splits if_splits)
    from f assms(3) have "convert_fobj E d = Inr None"
      by (auto simp: decode_frame_object_def split: sum.splits)
    from convert_fobj_None [OF this] zfob d show ?thesis by blast
  next
    case other
    from decode_comp_keeps_screen [OF other assms(1)] assms(2,3) show ?thesis by simp
  qed
qed

lemma decode_comps_clear_screen:
  assumes "decode_comps E ctx comps = Inr ctx'" and "screen ctx \<noteq> None" and "screen ctx' = None"
  shows "\<exists>c\<in>set comps. \<exists>d meta px.
           ((comp_tag c = ''FOBJ'' \<and> d = comp_data c)
            \<or> (comp_tag c = ''ZFOB'' \<and> zlib_decompress E (drop 4 (comp_data c)) = Inr d))
           \<and> unobj E d = Inr (meta, px) \<and> get_decoder E (codec meta) = None"
  using assms
proof (induction comps arbitrary: ctx)
  case Nil
  then show ?case by simp
next
  case (Cons c comps)
  from Cons.prems(1) obtain mid where m: "decode_comp E ctx c = Inr mid"
      and r: "decode_comps E mid comps = Inr ctx'"
    by (auto split: sum.splits)
  show ?case
  proof (cases "screen mid = None")
    case True
    from decode_comp_clears_screen [OF m Cons.prems(2) True] show ?thesis by auto
  next
    case False
    from Cons.IH [OF r False Cons.prems(3)] show ?thesis by auto
  qed
qed

lemma frames_loop_yields_screens:
  "frames_loop E ctx frames = (ys, r) \<Longrightarrow> \<forall>y\<in>set ys. screen y \<noteq> None"
proof (induction frames arbitrary: ctx ys r)
  case Nil
  then show ?case by simp
next
  case (Cons fr frames)
  then show ?case
    by (auto split: sum.splits if_splits prod.splits)
qed

lemma frames_loop_append:
  "frames_loop E ctx pre = (ys, None) \<Longrightarrow>
     frames_loop E ctx (pre @ rest)
       = (ys @ fst (frames_loop E (last (ctx # ys)) rest),
          snd (frames_loop E (last (ctx # ys)) rest))"
proof (induction pre arbitrary: ctx ys)
  case Nil
  then show ?case by simp
next
  case (Cons fr pre)
  from Cons.prems obtain ctx' ys' where
        d: "decode_comps E (ctx\<lparr>frame := Some fr\<rparr>) (comp_children fr) = Inr ctx'"
    and s: "screen ctx' \<noteq> None"
    and l: "frames_loop E ctx' pre = (ys', None)" and y: "ys = ctx' # ys'"
    by (auto split: sum.splits if_splits prod.splits)
  from Cons.IH [OF l] d s y show ?case
    by (simp split: prod.splits)
qed

lemma frame_start_has_screen:
  assumes "generate_frames E header_palette pre = (ys, None)"
  shows "screen (last (initial_ctx E header_palette # ys)) \<noteq> None"
proof (cases ys rule: rev_cases)
  case Nil
  then show ?thesis by (simp add: initial_ctx_def)
next
  case (snoc zs z)
  with frames_loop_yields_screens [OF assms [unfolded generate_frames_def]] show ?thesis
    by simp
qed

text \<open>C2, as stated, fails: a frame with no child at all (so no \<open>FOBJ\<close>/\<open>ZFOB\<close> child
  produced a pixel buffer) is yielded, with the screen the context was created with, and no
  exception ends the iteration.\<close>

theorem empty_frame_counterexample:
  "generate_frames env_99 [1, 2, 3] [frame_empty] = ([ctx_start\<lparr>frame := Some frame_empty\<rparr>], None)
   \<and> comp_children frame_empty = []"
  by (simp add: generate_frames_def ctx_start_def initial_ctx_def frame_empty_def)

text \<open>C2, amended: in \<open>generate_frames\<close> every frame starts from a context that has a
  screen (the default one, or the one yielded for the previous frame). After the children of a
  frame have been folded without an exception, the generator raises exactly when the resulting
  screen is \<open>None\<close>, which happens only when a \<open>FOBJ\<close> or \<open>ZFOB\<close> child of that frame
  selected a codec with no implemented decoder; otherwise it yields the context and goes on
  with the next frame. A frame with no \<open>FOBJ\<close>/\<open>ZFOB\<close> child keeps the screen it started
  with and is yielded, not rejected.\<close>

theorem frame_screen_check:
  assumes "generate_frames E header_palette pre = (ys, None)"
      and "decode_comps E ((last (initial_ctx E header_palette # ys))\<lparr>frame := Some fr\<rparr>)
             (comp_children fr) = Inr ctx'"
  shows "screen (last (initial_ctx E header_palette # ys)) \<noteq> None
       \<and> (screen ctx' = None \<longrightarrow>
            generate_frames E header_palette (pre @ fr # post) = (ys, Some AssertionError)
            \<and> (\<exists>c\<in>set (comp_children fr). \<exists>d meta px.
                  ((comp_tag c = ''FOBJ'' \<and> d = comp_data c)
                   \<or> (comp_tag c = ''ZFOB'' \<and> zlib_decompress E (drop 4 (comp_data c)) = Inr d))
                  \<and> unobj E d = Inr (meta, px) \<and> get_decoder E (codec meta) = None))
       \<and> (screen ctx' \<noteq> None \<longrightarrow>
            generate_frames E header_palette (pre @ fr # post)
              = (ys @ ctx' # fst (frames_loop E ctx' post), snd (frames_loop E ctx' post)))
       \<and> ((\<forall>c\<in>set (comp_children fr). comp_tag c \<noteq> ''FOBJ'' \<and> comp_tag c \<noteq> ''ZFOB'') \<longrightarrow>
            screen ctx' = screen (last (initial_ctx E header_palette # ys))
            \<and> generate_frames E header_palette (pre @ fr # post)
                = (ys @ ctx' # fst (frames_loop E ctx' post), snd (frames_loop E ctx' post)))"
proof -
  let ?start = "last (initial_ctx E header_palette # ys)"
  have st: "screen ?start \<noteq> None" by (rule frame_start_has_screen [OF assms(1)])
  have ap: "generate_frames E header_palette (pre @ fr # post)
              = (ys @ fst (frames_loop E ?start (fr # post)), snd (frames_loop E ?start (fr # post)))"
    unfolding generate_frames_def
    by (rule frames_loop_append [OF assms(1) [unfolded generate_frames_def]])
  have rej: "generate_frames E header_palette (pre @ fr # post) = (ys, Some AssertionError)"
    if "screen ctx' = None"
    unfolding ap using assms(2) that by simp
  have yld: "generate_frames E header_palette (pre @ fr # post)
              = (ys @ ctx' # fst (frames_loop E ctx' post), snd (frames_loop E ctx' post))"
    if "screen ctx' \<noteq> None"
    unfolding ap using assms(2) that by (simp split: prod.splits)
  have unimpl: "\<exists>c\<in>set (comp_children fr). \<exists>d meta px.
                  ((comp_tag c = ''FOBJ'' \<and> d = comp_data c)
                   \<or> (comp_tag c = ''ZFOB'' \<and> zlib_decompress E (drop 4 (comp_data c)) = Inr d))
                  \<and> unobj E d = Inr (meta, px) \<and> get_decoder E (codec meta) = None"
    if "screen ctx' = None"
    using decode_comps_clear_screen [OF assms(2) _ that] st by simp
  have keep: "screen ctx' = screen ?start"
    if "\<forall>c\<in>set (comp_children fr). comp_tag c \<noteq> ''FOBJ'' \<and> comp_tag c \<noteq> ''ZFOB''"
    using decode_comps_keep_screen [OF that assms(2)] by simp
  from st rej yld unimpl keep show ?thesis by metis
qed

theorem frame_screen_check_witness:
  "generate_frames env_99 [1, 2, 3] [frame_empty, frame_fobj, frame_npal]
     = ([ctx_start\<lparr>frame := Some frame_empty\<rparr>], Some AssertionError)
   \<and> generate_frames env_99 [1, 2, 3] [frame_empty, frame_npal]
       = ([ctx_start\<lparr>frame := Some frame_empty\<rparr>,
           ctx_start\<lparr>frame := Some frame_npal, palette := [9, 9, 9]\<rparr>], None)
   \<and> screen (ctx_start\<lparr>frame := Some frame_npal, palette := [9, 9, 9]\<rparr>)
       = screen (ctx_start\<lparr>frame := Some frame_empty\<rparr>)
   \<and> screen (ctx_start\<lparr>frame := Some frame_empty\<rparr>) \<noteq> None"
proof -
  have g: "generate_frames env_99 [1, 2, 3] [frame_empty]
             = ([ctx_start\<lparr>frame := Some frame_empty\<rparr>], None)"
    by (simp add: generate_frames_def ctx_start_def initial_ctx_def frame_empty_def)
  have a: "decode_comps env_99
             ((last (initial_ctx env_99 [1, 2, 3] # [ctx_start\<lparr>frame := Some frame_empty\<rparr>]))
                \<lparr>frame := Some frame_fobj\<rparr>) (comp_children frame_fobj)
             = Inr (ctx_start\<lparr>frame := Some frame_fobj, screen := None\<rparr>)"
    by (simp add: frame_fobj_def decode_comp_def DECODE_FRAME_IMAGE_def decode_frame_object_def
        convert_fobj_def env_99_def)
  have b: "decode_comps env_99
             ((last (initial_ctx env_99 [1, 2, 3] # [ctx_start\<lparr>frame := Some frame_empty\<rparr>]))
                \<lparr>frame := Some frame_npal\<rparr>) (comp_children frame_npal)
             = Inr (ctx_start\<lparr>frame := Some frame_npal, palette := [9, 9, 9]\<rparr>)"
    by (simp add: frame_npal_def decode_comp_def DECODE_FRAME_IMAGE_def npal_def)
  have c: "\<forall>c\<in>set (comp_children frame_npal). comp_tag c \<noteq> ''FOBJ'' \<and> comp_tag c \<noteq> ''ZFOB''"
    by (simp add: frame_npal_def)
  show ?thesis
    using frame_screen_check [OF g a, of "[frame_npal]"] frame_screen_check [OF g b, of "[]"] c
    by simp
qed

lemma frames_loop_threads:
  assumes "frames_loop E ctx frames = (ys, r)" and "i < length ys"
  shows "i < length frames
       \<and> decode_comps E ((if i = 0 then ctx else ys ! (i - 1))\<lparr>frame := Some (frames ! i)\<rparr>)
            (comp_children (frames ! i)) = Inr (ys ! i)"
  using assms
proof (induction frames arbitrary: ctx ys r i)
  case Nil
  then show ?case by simp
next
  case (Cons fr frames)
  from Cons.prems obtain ctx' ys' where
        d: "decode_comps E (ctx\<lparr>frame := Some fr\<rparr>) (comp_children fr) = Inr ctx'"
    and l: "frames_loop E ctx' frames = (ys', r)" and y: "ys = ctx' # ys'"
    by (auto split: sum.splits if_splits prod.splits)
  show ?case
  proof (cases i)
    case 0
    with d y show ?thesis by simp
  next
    case (Suc j)
    with Cons.prems(2) y have j: "j < length ys'" by simp
    from Cons.IH [OF l j] Suc y show ?thesis
      by (cases j) simp_all
  qed
qed

text \<open>C10: the fold over a frame after the first starts from the context yielded for the
  previous frame, with only the \<open>frame\<close> field replaced (palette, delta palette and screen
  are those yielded before); so a frame none of whose children is a \<open>FOBJ\<close> or \<open>ZFOB\<close>
  yields the previous frame's screen.\<close>

theorem context_threaded_across_frames:
  assumes "generate_frames E header_palette frames = (ys, r)" and "Suc i < length ys"
  shows "decode_comps E ((ys ! i)\<lparr>frame := Some (frames ! Suc i)\<rparr>)
            (comp_children (frames ! Suc i)) = Inr (ys ! Suc i)
       \<and> palette ((ys ! i)\<lparr>frame := Some (frames ! Suc i)\<rparr>) = palette (ys ! i)
       \<and> delta_pal ((ys ! i)\<lparr>frame := Some (frames ! Suc i)\<rparr>) = delta_pal (ys ! i)
       \<and> screen ((ys ! i)\<lparr>frame := Some (frames ! Suc i)\<rparr>) = screen (ys ! i)
       \<and> ((\<forall>c\<in>set (comp_children (frames ! Suc i)).
              comp_tag c \<noteq> ''FOBJ'' \<and> comp_tag c \<noteq> ''ZFOB'')
            \<longrightarrow> screen (ys ! Suc i) = screen (ys ! i))"
proof -
  have d: "decode_comps E ((ys ! i)\<lparr>frame := Some (frames ! Suc i)\<rparr>)
            (comp_children (frames ! Suc i)) = Inr (ys ! Suc i)"
    using frames_loop_threads [OF assms(1) [unfolded generate_frames_def] assms(2)] by simp
  have "screen (ys ! Suc i) = screen (ys ! i)"
    if "\<forall>c\<in>set (comp_children (frames ! Suc i)). comp_tag c \<noteq> ''FOBJ'' \<and> comp_tag c \<noteq> ''ZFOB''"
    using decode_comps_keep_screen [OF that d] by simp
  with d show ?thesis by simp
qed

theorem context_threaded_across_frames_witness:
  "generate_frames env_1 [1, 2, 3] [frame_fobj, frame_npal]
     = ([ctx_first, ctx_first\<lparr>frame := Some frame_npal, palette := [9, 9, 9]\<rparr>], None)
   \<and> screen (ctx_first\<lparr>frame := Some frame_npal, palette := [9, 9, 9]\<rparr>) = screen ctx_first
   \<and> screen ctx_first = Some (\<lparr>x1 = 0, y1 = 0, x2 = 4, y2 = 4\<rparr>, [[0, 0, 0, 0]])"
proof -
  have g: "generate_frames env_1 [1, 2, 3] [frame_fobj, frame_npal]
     = ([ctx_first, ctx_first\<lparr>frame := Some frame_npal, palette := [9, 9, 9]\<rparr>], None)"
    by (simp add: generate_frames_def initial_ctx_def frame_fobj_def frame_npal_def
        decode_comp_def DECODE_FRAME_IMAGE_def decode_frame_object_def convert_fobj_def
        npal_def env_1_def env_99_def ctx_first_def)
  have c: "\<forall>c\<in>set (comp_children ([frame_fobj, frame_npal] ! Suc 0)).
             comp_tag c \<noteq> ''FOBJ'' \<and> comp_tag c \<noteq> ''ZFOB''"
    by (simp add: frame_npal_def)
  have s: "screen ctx_first = Some (\<lparr>x1 = 0, y1 = 0, x2 = 4, y2 = 4\<rparr>, [[0, 0, 0, 0]])"
    by (simp add: ctx_first_def)
  show ?thesis
    using context_threaded_across_frames [OF g, of 0] c g s by simp
qed

section \<open>Properties of the schema inference and of the tree builder\<close>

subsection \<open>Element.read\<close>

lemma read_after_seek:
  "fst (read_bytes n (seek 0 v))
     = (case n of None \<Rightarrow> content v | Some k \<Rightarrow> if k < 0 then content v else take (nat k) (content v))"
  by (simp add: read_bytes_def seek_def Let_def split: option.splits)

lemma seek_seek: "seek p (seek q v) = seek p v"
  by (simp add: seek_def)

lemma content_seek: "content (seek p v) = content v"
  by (simp add: seek_def)

lemma content_read: "content (snd (read_bytes n v)) = content v"
  by (simp add: read_bytes_def seek_def Let_def)

text \<open>C9: whatever the cursor of the view, \<open>Element.read\<close> returns what a read from the
  start of the element's own payload returns; so a second call with the same arguments returns
  the same bytes as the first.\<close>

theorem element_read_idempotent:
  "fst (Element_read n (Element t a cs (seek pos v))) = fst (Element_read n (Element t a cs v))
   \<and> fst (Element_read n (snd (Element_read n el))) = fst (Element_read n el)
   \<and> fst (Element_read n el) = fst (read_bytes n (seek 0 (stream el)))"
  by (simp add: Element_read_def split_beta seek_seek read_after_seek content_read content_seek
      split: option.splits)

subsection \<open>The walk\<close>

lemma walk_blame:
  "(truthy_ptag ptag \<longrightarrow> truthy_entry sch ptag) \<longrightarrow>
     (\<forall>e a. map_chunks sch ptag strict data = Inl (e, a) \<longrightarrow> blamed_in sch e)"
  "(truthy_ptag ptag \<longrightarrow> truthy_entry sch ptag) \<longrightarrow>
     (\<forall>e a. walk_records sch ptag strict recs = Inl (e, a) \<longrightarrow> blamed_in sch e)"
  "\<forall>e a. create_element sch t offset chunk strict = Inl (e, a) \<longrightarrow> blamed_in sch e"
proof (induction sch ptag strict data and sch ptag strict recs and sch t offset chunk strict
       rule: map_chunks_walk_records_create_element.induct)
  case (1 sch ptag strict bs pos recs bad)
  then show ?case
    by (auto simp: exception_ptag_context_def blamed_in_def split: sum.splits option.splits if_splits)
next
  case (2 sch ptag strict)
  then show ?case by simp
next
  case (3 sch ptag strict hoff t chunk rest)
  show ?case
  proof (intro impI allI)
    fix e a
    assume ok: "truthy_ptag ptag \<longrightarrow> truthy_entry sch ptag"
       and r: "walk_records sch ptag strict ((hoff, Chunk t chunk) # rest) = Inl (e, a)"
    show "blamed_in sch e"
    proof (cases "create_element sch t hoff chunk strict")
      case (Inl x)
      with r 3(1) show ?thesis by (cases x) auto
    next
      case (Inr el)
      show ?thesis
      proof (cases "schema_check sch ptag t strict")
        case None
        with Inr r 3(2) ok show ?thesis by (auto split: sum.splits)
      next
        case (Some x)
        with Inr r have x: "x = (e, a)" by simp
        from Some [unfolded x] ok show ?thesis
          by (auto simp: schema_check_def blamed_in_def truthy_ptag_def truthy_entry_def
              split: if_splits option.splits)
      qed
    qed
  qed
next
  case (4 sch t offset data strict)
  then show ?case
    by (auto simp: truthy_ptag_def split: sum.splits if_splits)
qed

lemma top_walk_blame:
  "map_chunks sch None strict data = Inl (e, a) \<Longrightarrow> blamed_in sch e"
  using walk_blame(1) [of None sch strict data] by (simp add: truthy_ptag_def)


subsection \<open>One retry\<close>

lemma attempt_retry_cases:
  assumes "attempt data sch = Retry sch'"
  obtains (key) t where "map_of sch (Some t) = None" "sch' = AList.update (Some t) DUMMY sch"
  | (entry) p t tags where "map_of sch (Some p) = Some tags" "tags \<noteq> {}"
      "sch' = AList.update (Some p) ((tags - DUMMY) \<union> {Tag t}) sch"
  | (other) k where "map_of sch k \<noteq> Some DATA" "sch' = AList.update k DATA sch"
proof (cases "map_chunks sch None True data")
  case (Inr els)
  with assms show ?thesis by (simp add: attempt_def refine_def)
next
  case (Inl x)
  obtain e a where x: "x = (e, a)" by (cases x)
  from top_walk_blame [OF Inl [unfolded x]] have b: "blamed_in sch e" .
  show ?thesis
  proof (cases e)
    case (MissingSchemaKey t)
    with assms Inl x b key [of t] show ?thesis
      by (simp add: attempt_def refine_def blamed_in_def)
  next
    case (MissingSchemaEntry p t)
    with assms Inl x b entry [of p _ t] show ?thesis
      by (auto simp: attempt_def refine_def blamed_in_def truthy_entry_def split: option.splits)
  next
    case (OtherException err)
    with assms Inl x other show ?thesis
      by (auto simp: attempt_def refine_def split: option.splits if_splits)
  qed
qed


lemma retry_keeps_distinct:
  assumes "attempt data sch = Retry sch'" and "distinct (map fst sch)"
  shows "distinct (map fst sch')"
  using assms by (cases rule: attempt_retry_cases) (simp_all add: distinct_update)




lemma schema_after_distinct:
  assumes "schema_after data n sch = Some sch'" and "distinct (map fst sch)"
  shows "distinct (map fst sch')"
  using assms
proof (induction n arbitrary: sch)
  case 0
  then show ?case by simp
next
  case (Suc n)
  from Suc.prems(1) obtain mid where a: "attempt data sch = Retry mid"
      and r: "schema_after data n mid = Some sch'"
    by (auto split: outcome.splits)
  from Suc.IH [OF r retry_keeps_distinct [OF a Suc.prems(2)]] show ?case .
qed


subsection \<open>The loop\<close>

lemma loop_return:
  "attempt data sch = Return r \<Longrightarrow> generate_schema_loop data sch = Some (Inr r)"
  by (subst generate_schema_loop.simps) simp


lemma loop_retry:
  "attempt data sch = Retry sch' \<Longrightarrow>
     generate_schema_loop data sch = generate_schema_loop data sch'"
  by (subst generate_schema_loop.simps) simp

lemma loop_after:
  "schema_after data n sch = Some sch' \<Longrightarrow>
     generate_schema_loop data sch = generate_schema_loop data sch'"
proof (induction n arbitrary: sch)
  case 0
  then show ?case by simp
next
  case (Suc n)
  from Suc.prems obtain mid where a: "attempt data sch = Retry mid"
      and r: "schema_after data n mid = Some sch'"
    by (auto split: outcome.splits)
  from loop_retry [OF a] Suc.IH [OF r] show ?case by simp
qed

lemma loop_result_reached:
  assumes "generate_schema_loop data sch = Some res"
  shows "\<exists>n s. schema_after data n sch = Some s
           \<and> (case res of Inr r \<Rightarrow> attempt data s = Return r | Inl e \<Rightarrow> attempt data s = Raise e)"
  using assms
proof (induction rule: generate_schema_loop.raw_induct [rotated 1, consumes 1])
  case (1 loop data sch res)
  show ?case
  proof (cases "attempt data sch")
    case (Return r)
    with 1(2) have "res = Inr r" by simp
    with Return have "schema_after data 0 sch = Some sch
        \<and> (case res of Inr r \<Rightarrow> attempt data sch = Return r | Inl e \<Rightarrow> attempt data sch = Raise e)"
      by simp
    then show ?thesis by blast
  next
    case (Raise e)
    with 1(2) have "res = Inl e" by simp
    with Raise have "schema_after data 0 sch = Some sch
        \<and> (case res of Inr r \<Rightarrow> attempt data sch = Return r | Inl e \<Rightarrow> attempt data sch = Raise e)"
      by simp
    then show ?thesis by blast
  next
    case (Retry sch')
    with 1(2) have "loop data sch' = Some res" by simp
    from 1(1) [OF this] obtain n s where "schema_after data n sch' = Some s"
      "(case res of Inr r \<Rightarrow> attempt data s = Return r | Inl e \<Rightarrow> attempt data s = Raise e)"
      by blast
    with Retry have "schema_after data (Suc n) sch = Some s
        \<and> (case res of Inr r \<Rightarrow> attempt data s = Return r | Inl e \<Rightarrow> attempt data s = Raise e)"
      by simp
    then show ?thesis by blast
  qed
qed

lemma attempt_return:
  "attempt data s = Return r \<Longrightarrow>
     (\<exists>els. map_chunks s None True data = Inr els) \<and> r = filter (\<lambda>(ptag, tags). tags \<noteq> DUMMY) s"
  by (auto simp: attempt_def refine_def split: sum.splits exn.splits option.splits if_splits)

lemma map_of_filter_distinct:
  "distinct (map fst al) \<Longrightarrow>
     map_of (filter (\<lambda>(k, v). P v) al) k
       = (case map_of al k of None \<Rightarrow> None | Some v \<Rightarrow> if P v then Some v else None)"
proof (induction al)
  case Nil
  then show ?case by simp
next
  case (Cons a al)
  obtain k' v' where a: "a = (k', v')" by (cases a)
  from Cons.prems a have nk: "map_of al k' = None"
    by (simp add: map_of_eq_None_iff)
  have nf: "map_of (filter (\<lambda>(k, v). P v) al) k' = None"
    using Cons.prems a by (auto simp: map_of_eq_None_iff)
  from Cons a nk nf show ?case by (auto split: option.splits)
qed

subsection \<open>Monotonicity of the recorded schema\<close>



subsection \<open>The returned schema\<close>

text \<open>C4, as stated, fails: \<open>AAAA\<close> is recorded as a sentinel hypothesis and never seen with
  a child; inference succeeds and the returned mapping has no key \<open>AAAA\<close>.\<close>

theorem sentinel_dropped_counterexample:
  "schema_after stream_leaf 1 [] = Some [(Some ''AAAA'', DUMMY)]
   \<and> attempt stream_leaf [(Some ''AAAA'', DUMMY)] = Return []
   \<and> generate_schema stream_leaf = Some (Inr [])
   \<and> map_of ([] :: schema) (Some ''AAAA'') \<noteq> Some DATA"
proof -
  have a: "schema_after stream_leaf 1 [] = Some [(Some ''AAAA'', DUMMY)]"
    by code_simp
  have b: "attempt stream_leaf [(Some ''AAAA'', DUMMY)] = Return []"
    by code_simp
  have "generate_schema stream_leaf = Some (Inr [])"
    unfolding generate_schema_def using loop_after [OF a] loop_return [OF b] by simp
  with a b show ?thesis by simp
qed

text \<open>C4, amended: when inference succeeds, the returned schema is the schema recorded at the
  successful walk without the entries whose set is still the sentinel: a tag hypothesised as a
  container and never seen with a real child is absent from the returned mapping, and every
  other key is returned with its recorded set.\<close>

theorem returned_schema_drops_sentinels:
  assumes "generate_schema data = Some (Inr r)"
  shows "\<exists>n s. schema_after data n [] = Some s
           \<and> (\<exists>els. map_chunks s None True data = Inr els)
           \<and> r = filter (\<lambda>(ptag, tags). tags \<noteq> DUMMY) s
           \<and> (\<forall>k. map_of r k = (if map_of s k = Some DUMMY then None else map_of s k))"
proof -
  from loop_result_reached [OF assms [unfolded generate_schema_def]]
  obtain n s where a: "schema_after data n [] = Some s" and ret: "attempt data s = Return r"
    by auto
  from schema_after_distinct [OF a] have d: "distinct (map fst s)" by simp
  from attempt_return [OF ret] have w: "\<exists>els. map_chunks s None True data = Inr els"
      and f: "r = filter (\<lambda>(ptag, tags). tags \<noteq> DUMMY) s"
    by simp_all
  have "\<forall>k. map_of r k = (if map_of s k = Some DUMMY then None else map_of s k)"
    unfolding f using map_of_filter_distinct [OF d, of "\<lambda>tags. tags \<noteq> DUMMY"]
    by (auto split: option.splits)
  with a w f show ?thesis by blast
qed

theorem returned_schema_drops_sentinels_witness:
  "generate_schema stream_leaf = Some (Inr [])
   \<and> (\<exists>n s. schema_after stream_leaf n [] = Some s
           \<and> (\<exists>els. map_chunks s None True stream_leaf = Inr els)
           \<and> [] = filter (\<lambda>(ptag, tags). tags \<noteq> DUMMY) s
           \<and> (\<forall>k. map_of [] k = (if map_of s k = Some DUMMY then None else map_of s k)))"
proof -
  have a: "schema_after stream_leaf 1 [] = Some [(Some ''AAAA'', DUMMY)]"
    by code_simp
  have b: "attempt stream_leaf [(Some ''AAAA'', DUMMY)] = Return []"
    by code_simp
  have g: "generate_schema stream_leaf = Some (Inr [])"
    unfolding generate_schema_def using loop_after [OF a] loop_return [OF b] by simp
  from returned_schema_drops_sentinels [OF g] g show ?thesis by blast
qed

subsection \<open>Structural parse failures\<close>




end
